theory Spec2Isabelle
  imports Main
begin

section \<open>Python values\<close>

text \<open>
  The program is \<^verbatim>\<open>src/main.py\<close>. A Python \<^verbatim>\<open>str\<close> is modelled by its UTF-8 bytes
  (a \<open>string\<close>, one \<open>char\<close> per byte; a byte that is not UTF-8 stands for the lone
  surrogate Python holds in its place), a \<^verbatim>\<open>bytes\<close> object by the same type. An exception
  is its class name and the text \<^verbatim>\<open>str(e)\<close>. Only exceptions below \<^verbatim>\<open>Exception\<close> occur:
  the ones the operating system, the console, \<^verbatim>\<open>requests\<close>, \<^verbatim>\<open>json\<close> and the interpreter
  (\<^verbatim>\<open>RecursionError\<close>) raise. Asynchronous interrupts (\<^verbatim>\<open>KeyboardInterrupt\<close>) are not part
  of the model.
\<close>

type_synonym bytes = "char list"

datatype exn = Exn (exn_class: string) (exn_str: string)

text \<open>
  What \<^verbatim>\<open>response.json()\<close> can return. A float is kept as its literal; an object is the
  list of the items of the parsed \<^verbatim>\<open>dict\<close>.
\<close>

datatype json =
    JNull
  | JBool bool
  | JInt int
  | JFloat string
  | JString string
  | JArray "json list"
  | JObject "(string \<times> json) list"

text \<open>
  A Node: the \<^verbatim>\<open>dict\<close> that \<^verbatim>\<open>scan_folder\<close> builds, with the keys \<^verbatim>\<open>name\<close>, \<^verbatim>\<open>path\<close>,
  \<^verbatim>\<open>type\<close>, \<^verbatim>\<open>description\<close> and, where the source writes the key, \<^verbatim>\<open>children\<close>
  (\<open>None\<close>: the key is absent). The description is whatever \<^verbatim>\<open>describe_with_curl\<close>
  returned, which need not be a string.
\<close>

datatype node =
  Node (name: string) (path: string) (type: string) (description: json)
       (children: "node list option")

text \<open>The request body, and the request \<^verbatim>\<open>requests.post\<close> sends.\<close>

record message =
  role :: string
  content :: string
  images :: "string list option"

record payload =
  model :: string
  messages :: "message list"

record request =
  url :: string
  headers :: "(string \<times> string) list"
  body :: payload

text \<open>
  The response object: \<^verbatim>\<open>status_code\<close>, \<^verbatim>\<open>text\<close> (here \<open>resp_text\<close>), and what \<^verbatim>\<open>json()\<close> does on it
  (raise, or return the parsed value).
\<close>

record response =
  status_code :: int
  resp_text :: string
  json_result :: "exn + json"

section \<open>The environment\<close>

text \<open>
  A path resolves (symbolic links followed) to nothing, to a file or to a directory.
  Reading a file gives its bytes or raises; listing a directory gives the names of its
  entries in the order of \<^verbatim>\<open>os.listdir\<close>, or raises.
\<close>

datatype entry = File "exn + bytes" | Dir "exn + string list"

text \<open>
  What the program cannot decide by itself is a parameter:
  \<^item> \<open>server n r\<close> is the outcome of the request \<open>r\<close> when \<open>n\<close> requests were sent before
    it: an exception of \<^verbatim>\<open>requests.post\<close> (a transport failure) or a response;
  \<^item> \<open>print_error n l\<close> is the exception, if any, that \<^verbatim>\<open>print\<close> raises for the text \<open>l\<close>
    when \<open>n\<close> texts were printed before it (\<^verbatim>\<open>UnicodeEncodeError\<close> on a console that cannot
    encode the text, \<^verbatim>\<open>OSError\<close> or \<^verbatim>\<open>ValueError\<close> on a closed console);
  \<^item> \<open>write_error p\<close> is the exception, if any, of opening \<open>p\<close> for writing;
  \<^item> \<open>os_error_text c p\<close> is the text \<^verbatim>\<open>str(e)\<close> of the operating system's error of class
    \<open>c\<close> on the path \<open>p\<close>;
  \<^item> \<open>recursion_limit\<close> is the number of nested calls of \<^verbatim>\<open>scan_folder\<close> the interpreter
    allows before it raises \<^verbatim>\<open>RecursionError\<close> (about 1000 unless configured);
  \<^item> \<open>abspath\<close> is \<^verbatim>\<open>os.path.abspath\<close> (it depends on the working directory) and
    \<open>dumps indent\<close> is the text \<^verbatim>\<open>json.dump\<close> writes: library functions taken as they are.
\<close>

record env =
  entries :: "string \<Rightarrow> entry option"
  abspath :: "string \<Rightarrow> string"
  server :: "nat \<Rightarrow> request \<Rightarrow> exn + response"
  print_error :: "nat \<Rightarrow> string \<Rightarrow> exn option"
  write_error :: "string \<Rightarrow> exn option"
  os_error_text :: "string \<Rightarrow> string \<Rightarrow> string"
  recursion_limit :: nat
  dumps :: "nat \<Rightarrow> node \<Rightarrow> string"

text \<open>
  The effects of a run: the requests sent, the texts printed on the console, and the
  files written (path and content).
\<close>

record io =
  sent :: "request list"
  stdout :: "string list"
  files :: "(string \<times> string) list"

text \<open>A call raises (\<open>Inl\<close>) or returns (\<open>Inr\<close>), and leaves the effects so far.\<close>

type_synonym 'a result = "(exn + 'a) \<times> io"

definition os_error :: "env \<Rightarrow> string \<Rightarrow> string \<Rightarrow> exn" where
  "os_error e c p = Exn c (os_error_text e c p)"

definition path_exists :: "env \<Rightarrow> string \<Rightarrow> bool" where
  "path_exists e p = (entries e p \<noteq> None)"

definition isdir :: "env \<Rightarrow> string \<Rightarrow> bool" where
  "isdir e p = (case entries e p of Some (Dir _) \<Rightarrow> True | _ \<Rightarrow> False)"

definition listdir :: "env \<Rightarrow> string \<Rightarrow> exn + string list" where
  "listdir e p =
     (case entries e p of
        None \<Rightarrow> Inl (os_error e ''FileNotFoundError'' p)
      | Some (File _) \<Rightarrow> Inl (os_error e ''NotADirectoryError'' p)
      | Some (Dir l) \<Rightarrow> l)"

text \<open>\<^verbatim>\<open>open(image_path, "rb")\<close> followed by \<^verbatim>\<open>read()\<close>.\<close>

definition read_bytes :: "env \<Rightarrow> string \<Rightarrow> exn + bytes" where
  "read_bytes e p =
     (case entries e p of
        None \<Rightarrow> Inl (os_error e ''FileNotFoundError'' p)
      | Some (Dir _) \<Rightarrow> Inl (os_error e ''IsADirectoryError'' p)
      | Some (File c) \<Rightarrow> c)"

text \<open>\<^verbatim>\<open>print\<close>: the text reaches the console, or the call raises and nothing is printed.\<close>

definition print :: "env \<Rightarrow> string \<Rightarrow> io \<Rightarrow> unit result" where
  "print e line s =
     (case print_error e (length (stdout s)) line of
        Some ex \<Rightarrow> (Inl ex, s)
      | None \<Rightarrow> (Inr (), s\<lparr>stdout := stdout s @ [line]\<rparr>))"

section \<open>Library functions on strings and paths\<close>

text \<open>\<^verbatim>\<open>os.path.basename\<close> and \<^verbatim>\<open>os.path.join\<close> of \<^verbatim>\<open>posixpath\<close>.\<close>

definition basename :: "string \<Rightarrow> string" where
  "basename p = rev (takeWhile (\<lambda>c. c \<noteq> CHR ''/'') (rev p))"

definition join :: "string \<Rightarrow> string \<Rightarrow> string" where
  "join a b =
     (if b \<noteq> [] \<and> hd b = CHR ''/'' then b
      else if a = [] \<or> last a = CHR ''/'' then a @ b
      else a @ ''/'' @ b)"

text \<open>
  \<^verbatim>\<open>str.lower\<close>: on UTF-8 bytes only the ASCII capitals change, and no other character
  lowers to one of the letters of the four suffixes tested below.
\<close>

definition lower_char :: "char \<Rightarrow> char" where
  "lower_char c =
     (let n = (of_char c :: nat) in if 65 \<le> n \<and> n \<le> 90 then char_of (n + 32) else c)"

definition lower :: "string \<Rightarrow> string" where
  "lower s = map lower_char s"

definition endswith1 :: "string \<Rightarrow> string \<Rightarrow> bool" where
  "endswith1 s suf = (length suf \<le> length s \<and> drop (length s - length suf) s = suf)"

text \<open>\<^verbatim>\<open>str.endswith\<close> with a tuple of suffixes.\<close>

definition endswith :: "string \<Rightarrow> string list \<Rightarrow> bool" where
  "endswith s sufs = list_ex (endswith1 s) sufs"

text \<open>
  \<^verbatim>\<open>str.strip\<close> removes the white space of Unicode at both ends. On UTF-8 bytes these
  are the bytes 9 to 13 and 28 to 32, the two-byte characters U+0085 and U+00A0, and the
  three-byte characters U+1680, U+2000 to U+200A, U+2028, U+2029, U+202F, U+205F and
  U+3000.
\<close>

definition space1 :: "nat \<Rightarrow> bool" where
  "space1 a = ((9 \<le> a \<and> a \<le> 13) \<or> (28 \<le> a \<and> a \<le> 32))"

definition space2 :: "nat \<Rightarrow> nat \<Rightarrow> bool" where
  "space2 a b = (a = 0xC2 \<and> (b = 0x85 \<or> b = 0xA0))"

definition space3 :: "nat \<Rightarrow> nat \<Rightarrow> nat \<Rightarrow> bool" where
  "space3 a b c =
     ((a = 0xE1 \<and> b = 0x9A \<and> c = 0x80) \<or>
      (a = 0xE2 \<and> b = 0x80 \<and> ((0x80 \<le> c \<and> c \<le> 0x8A) \<or> c = 0xA8 \<or> c = 0xA9 \<or> c = 0xAF)) \<or>
      (a = 0xE2 \<and> b = 0x81 \<and> c = 0x9F) \<or>
      (a = 0xE3 \<and> b = 0x80 \<and> c = 0x80))"

fun lstrip :: "string \<Rightarrow> string" where
  "lstrip [] = []"
| "lstrip (a # rest) =
     (if space1 (of_char a) then lstrip rest
      else
        (case rest of
           [] \<Rightarrow> a # rest
         | b # rest2 \<Rightarrow>
             if space2 (of_char a) (of_char b) then lstrip rest2
             else
               (case rest2 of
                  [] \<Rightarrow> a # rest
                | c # rest3 \<Rightarrow>
                    if space3 (of_char a) (of_char b) (of_char c) then lstrip rest3
                    else a # rest)))"

text \<open>The same from the right, on the reversed string.\<close>

fun rstrip_rev :: "string \<Rightarrow> string" where
  "rstrip_rev [] = []"
| "rstrip_rev (c # rest) =
     (if space1 (of_char c) then rstrip_rev rest
      else
        (case rest of
           [] \<Rightarrow> c # rest
         | b # rest2 \<Rightarrow>
             if space2 (of_char b) (of_char c) then rstrip_rev rest2
             else
               (case rest2 of
                  [] \<Rightarrow> c # rest
                | a # rest3 \<Rightarrow>
                    if space3 (of_char a) (of_char b) (of_char c) then rstrip_rev rest3
                    else c # rest)))"

definition strip :: "string \<Rightarrow> string" where
  "strip s = rev (rstrip_rev (rev (lstrip s)))"

text \<open>\<^verbatim>\<open>base64.b64encode(...).decode("utf-8")\<close>.\<close>

definition b64_alphabet :: string where
  "b64_alphabet = ''ABCDEFGHIJKLMNOPQRSTUVWXYZabcdefghijklmnopqrstuvwxyz0123456789+/''"

definition b64_char :: "nat \<Rightarrow> char" where
  "b64_char n = b64_alphabet ! (n mod 64)"

fun b64_groups :: "nat list \<Rightarrow> string" where
  "b64_groups [] = []"
| "b64_groups [a] =
     [b64_char (a div 4), b64_char ((a mod 4) * 16), CHR ''='', CHR ''='']"
| "b64_groups [a, b] =
     [b64_char (a div 4), b64_char ((a mod 4) * 16 + b div 16),
      b64_char ((b mod 16) * 4), CHR ''='']"
| "b64_groups (a # b # c # rest) =
     [b64_char (a div 4), b64_char ((a mod 4) * 16 + b div 16),
      b64_char ((b mod 16) * 4 + c div 64), b64_char (c mod 64)] @ b64_groups rest"

definition b64encode :: "bytes \<Rightarrow> string" where
  "b64encode bs = b64_groups (map of_char bs)"

section \<open>The Describer\<close>

text \<open>
  \<^verbatim>\<open>encode_image_to_base64\<close>: the \<^verbatim>\<open>try\<close> around \<^verbatim>\<open>open\<close> and \<^verbatim>\<open>read\<close> catches every
  exception; the handler prints a line and returns \<^verbatim>\<open>None\<close>. The \<^verbatim>\<open>print\<close> of the handler is
  under no \<^verbatim>\<open>try\<close>: what it raises leaves the function.
\<close>

definition encoding_notice :: "string \<Rightarrow> exn \<Rightarrow> string" where
  "encoding_notice image_path ex =
     ''Error encoding image: '' @ image_path @ ''. Error: '' @ exn_str ex"

definition encode_image_to_base64 :: "env \<Rightarrow> string \<Rightarrow> io \<Rightarrow> (string option) result" where
  "encode_image_to_base64 e image_path s =
     (case read_bytes e image_path of
        Inr bs \<Rightarrow> (Inr (Some (b64encode bs)), s)
      | Inl ex \<Rightarrow>
          (case print e (encoding_notice image_path ex) s of
             (Inl px, s') \<Rightarrow> (Inl px, s')
           | (Inr u, s') \<Rightarrow> (Inr None, s')))"

definition api_url :: string where
  "api_url = ''http://localhost:11434/api/chat''"

definition api_headers :: "(string \<times> string) list" where
  "api_headers = [(''Content-Type'', ''application/json'')]"

definition image_message :: "string \<Rightarrow> message" where
  "image_message image_data =
     \<lparr>role = ''user'', content = ''What is in this image?'', images = Some [image_data]\<rparr>"

text \<open>The f-string \<^verbatim>\<open>f"Describe this: {text}"\<close>; \<^verbatim>\<open>text\<close> may be \<^verbatim>\<open>None\<close>.\<close>

definition text_message :: "string option \<Rightarrow> message" where
  "text_message txt =
     \<lparr>role = ''user'',
      content = ''Describe this: '' @ (case txt of None \<Rightarrow> ''None'' | Some t \<Rightarrow> t),
      images = None\<rparr>"

definition mk_request :: "string \<Rightarrow> message \<Rightarrow> request" where
  "mk_request mdl m =
     \<lparr>url = api_url, headers = api_headers, body = \<lparr>model = mdl, messages = [m]\<rparr>\<rparr>"

text \<open>\<^verbatim>\<open>requests.post\<close>: the request is sent, and the call raises or returns a response.\<close>

definition post :: "env \<Rightarrow> request \<Rightarrow> io \<Rightarrow> response result" where
  "post e r s = (server e (length (sent s)) r, s\<lparr>sent := sent s @ [r]\<rparr>)"

definition type_name :: "json \<Rightarrow> string" where
  "type_name v =
     (case v of
        JNull \<Rightarrow> ''NoneType'' | JBool _ \<Rightarrow> ''bool'' | JInt _ \<Rightarrow> ''int''
      | JFloat _ \<Rightarrow> ''float'' | JString _ \<Rightarrow> ''str'' | JArray _ \<Rightarrow> ''list''
      | JObject _ \<Rightarrow> ''dict'')"

text \<open>
  \<^verbatim>\<open>v.get("content", "No description available")\<close>: only a \<^verbatim>\<open>dict\<close> has the method; on
  any other value the attribute lookup raises, with the name of the type between
  apostrophes in the text.
\<close>

definition quoted :: "string \<Rightarrow> string" where
  "quoted t = [CHR 0x27] @ t @ [CHR 0x27]"

definition get_content :: "json \<Rightarrow> exn + json" where
  "get_content v =
     (case v of
        JObject kvs \<Rightarrow>
          (case map_of kvs ''content'' of
             Some c \<Rightarrow> Inr c
           | None \<Rightarrow> Inr (JString ''No description available''))
      | _ \<Rightarrow> Inl (Exn ''AttributeError''
                 (quoted (type_name v) @ '' object has no attribute '' @ quoted ''get'')))"

text \<open>Formatting an integer in an f-string.\<close>

definition digit_char :: "nat \<Rightarrow> char" where
  "digit_char d = char_of (48 + d)"

function show_nat :: "nat \<Rightarrow> string" where
  "show_nat n = (if n < 10 then [digit_char n] else show_nat (n div 10) @ [digit_char (n mod 10)])"
  by pat_completeness auto
termination
  by (relation "measure id") auto

definition show_int :: "int \<Rightarrow> string" where
  "show_int i = (if i < 0 then CHR ''-'' # show_nat (nat (- i)) else show_nat (nat i))"

text \<open>The body of the \<^verbatim>\<open>try\<close> statement of \<^verbatim>\<open>describe_with_curl\<close>.\<close>

definition try_request :: "env \<Rightarrow> request \<Rightarrow> io \<Rightarrow> json result" where
  "try_request e r s =
     (case post e r s of
        (Inl ex, s') \<Rightarrow> (Inl ex, s')
      | (Inr resp, s') \<Rightarrow>
          (if status_code resp = 200 then
             (case json_result resp of
                Inl ex \<Rightarrow> (Inl ex, s')
              | Inr v \<Rightarrow> (get_content v, s'))
           else (Inr (JString (''Error: '' @ show_int (status_code resp) @ '' - '' @ resp_text resp)), s')))"

text \<open>
  The \<^verbatim>\<open>try\<close> statement with its handler \<^verbatim>\<open>except Exception as e\<close>: whatever the body
  raises becomes a string.
\<close>

definition request_description :: "env \<Rightarrow> request \<Rightarrow> io \<Rightarrow> json result" where
  "request_description e r s =
     (case try_request e r s of
        (Inr v, s') \<Rightarrow> (Inr v, s')
      | (Inl ex, s') \<Rightarrow> (Inr (JString (''Error making the request: '' @ exn_str ex)), s'))"

text \<open>The truth value of an optional string: \<^verbatim>\<open>None\<close> and the empty string are false.\<close>

definition truthy :: "string option \<Rightarrow> bool" where
  "truthy x = (case x of None \<Rightarrow> False | Some v \<Rightarrow> v \<noteq> [])"

text \<open>
  \<^verbatim>\<open>describe_with_curl(model, image_path=None, text=None)\<close>. The call of
  \<^verbatim>\<open>encode_image_to_base64\<close> is before the \<^verbatim>\<open>try\<close>, so what it raises leaves this function
  too.
\<close>

definition describe_with_curl ::
  "env \<Rightarrow> string \<Rightarrow> string option \<Rightarrow> string option \<Rightarrow> io \<Rightarrow> json result" where
  "describe_with_curl e mdl image_path txt s =
     (if truthy image_path then
        (case encode_image_to_base64 e (the image_path) s of
           (Inl ex, s1) \<Rightarrow> (Inl ex, s1)
         | (Inr image_data, s1) \<Rightarrow>
             if truthy image_data
             then request_description e (mk_request mdl (image_message (the image_data))) s1
             else (Inr (JString ''Error encoding the image for description.''), s1))
      else request_description e (mk_request mdl (text_message txt)) s)"

section \<open>The Tree Walker\<close>

definition image_suffixes :: "string list" where
  "image_suffixes = [''png'', ''jpg'', ''jpeg'', ''gif'']"

text \<open>The \<^verbatim>\<open>else\<close> branch of the loop body: the entry is not a directory.\<close>

definition file_entry :: "env \<Rightarrow> string \<Rightarrow> string \<Rightarrow> string \<Rightarrow> io \<Rightarrow> node result" where
  "file_entry e mdl folder_path item s =
     (let item_path = join folder_path item in
      case describe_with_curl e mdl
             (if endswith (lower item) image_suffixes then Some item_path else None)
             (Some item) s of
        (Inl ex, s') \<Rightarrow> (Inl ex, s')
      | (Inr d, s') \<Rightarrow> (Inr (Node item (abspath e item_path) ''file'' d None), s'))"

text \<open>
  The loop \<^verbatim>\<open>for item in os.listdir(folder_path)\<close>; \<open>acc\<close> is \<^verbatim>\<open>result["children"]\<close> so
  far and \<open>recurse\<close> is the recursive call of \<^verbatim>\<open>scan_folder\<close> with the same model.
\<close>

fun scan_items ::
  "(string \<Rightarrow> io \<Rightarrow> node result) \<Rightarrow> env \<Rightarrow> string \<Rightarrow> string \<Rightarrow> string list \<Rightarrow> node list \<Rightarrow> io
     \<Rightarrow> (node list) result" where
  "scan_items recurse e mdl folder_path [] acc s = (Inr acc, s)"
| "scan_items recurse e mdl folder_path (item # rest) acc s =
     (let item_path = join folder_path item in
      if isdir e item_path then
        (case recurse item_path s of
           (Inl ex, s') \<Rightarrow> (Inl ex, s')
         | (Inr child, s') \<Rightarrow> scan_items recurse e mdl folder_path rest (acc @ [child]) s')
      else
        (case file_entry e mdl folder_path item s of
           (Inl ex, s') \<Rightarrow> (Inl ex, s')
         | (Inr child, s') \<Rightarrow> scan_items recurse e mdl folder_path rest (acc @ [child]) s'))"

definition recursion_error :: exn where
  "recursion_error = Exn ''RecursionError'' ''maximum recursion depth exceeded''"

text \<open>
  \<^verbatim>\<open>scan_folder(folder_path, model)\<close>: the folder is described first, then listed, then
  its entries are visited in the order of the listing. The first argument is the number
  of nested calls the interpreter still allows: with none left the call raises
  \<^verbatim>\<open>RecursionError\<close> before its body runs, so the recursion always ends. (When the limit is
  reached inside \<^verbatim>\<open>requests.post\<close>, the exception is caught there like any other and is an
  outcome \<open>Inl\<close> of \<open>server\<close>.)
\<close>

fun scan_folder :: "nat \<Rightarrow> env \<Rightarrow> string \<Rightarrow> string \<Rightarrow> io \<Rightarrow> node result" where
  "scan_folder 0 e folder_path mdl s = (Inl recursion_error, s)"
| "scan_folder (Suc depth) e folder_path mdl s =
     (case describe_with_curl e mdl None (Some (basename folder_path)) s of
        (Inl ex, s1) \<Rightarrow> (Inl ex, s1)
      | (Inr d, s1) \<Rightarrow>
          (case listdir e folder_path of
             Inl ex \<Rightarrow> (Inl ex, s1)
           | Inr items \<Rightarrow>
               (case scan_items (\<lambda>p. scan_folder depth e p mdl) e mdl folder_path items [] s1 of
                  (Inl ex, s2) \<Rightarrow> (Inl ex, s2)
                | (Inr cs, s2) \<Rightarrow>
                    (Inr (Node (basename folder_path) (abspath e folder_path)
                            ''folder'' d (Some cs)), s2))))"

section \<open>The program\<close>

text \<open>
  \<^verbatim>\<open>main()\<close>. The prompt of \<^verbatim>\<open>input\<close> goes to the console like a printed text; \<open>inp\<close>
  is what \<^verbatim>\<open>input\<close> does once the prompt is written: it raises (\<^verbatim>\<open>EOFError\<close>) or returns
  the line entered. A file is written when \<^verbatim>\<open>open\<close> succeeds,
  with the text of \<^verbatim>\<open>json.dump(folder_structure, f, indent=4)\<close>.
\<close>

definition main :: "env \<Rightarrow> exn + string \<Rightarrow> io \<Rightarrow> unit result" where
  "main e inp s =
     (case print e ''Enter the path to the folder you want to scan: '' s of
        (Inl ex, s0) \<Rightarrow> (Inl ex, s0)
      | (Inr u0, s0) \<Rightarrow>
     (case inp of
        Inl ex \<Rightarrow> (Inl ex, s0)
      | Inr line \<Rightarrow>
     (let folder_path = strip line; mdl = ''llama3.2-vision'' in
      if \<not> path_exists e folder_path
      then print e ''The specified folder does not exist.'' s0
      else
     (case print e ''Scanning folder and generating descriptions...'' s0 of
        (Inl ex, s1) \<Rightarrow> (Inl ex, s1)
      | (Inr u1, s1) \<Rightarrow>
     (case scan_folder (recursion_limit e) e folder_path mdl s1 of
        (Inl ex, s2) \<Rightarrow> (Inl ex, s2)
      | (Inr folder_structure, s2) \<Rightarrow>
     (let output_file = join folder_path ''folder_structure.json'' in
      case write_error e output_file of
        Some ex \<Rightarrow> (Inl ex, s2)
      | None \<Rightarrow>
          print e (''Folder structure saved to '' @ output_file)
            (s2\<lparr>files := files s2 @ [(output_file, dumps e 4 folder_structure)]\<rparr>)))))))"

section \<open>Properties of trees and of directories\<close>

text \<open>
  The structural invariant of a Node, at every node of a tree: the key \<^verbatim>\<open>children\<close> is
  present exactly when the type is \<^verbatim>\<open>"folder"\<close>.
\<close>

fun node_ok :: "node \<Rightarrow> bool" where
  "node_ok (Node n p t d cs) =
     (((cs \<noteq> None) = (t = ''folder'')) \<and>
      (case cs of None \<Rightarrow> True | Some l \<Rightarrow> list_all node_ok l))"

text \<open>
  A leaf for the entry \<open>item\<close> of the folder \<open>p\<close>: its name, path and type, no children,
  and as description what the Describer returned for the entry, in the mode of its name.
\<close>

definition leaf_for :: "env \<Rightarrow> string \<Rightarrow> string \<Rightarrow> string \<Rightarrow> node \<Rightarrow> bool" where
  "leaf_for e mdl p item c =
     (name c = item \<and> path c = abspath e (join p item) \<and> type c = ''file'' \<and>
      children c = None \<and>
      (\<exists>s1 s2. describe_with_curl e mdl
                 (if endswith (lower item) image_suffixes then Some (join p item) else None)
                 (Some item) s1 = (Inr (description c), s2)))"


text \<open>
  A directory tree of nesting depth at most \<open>d\<close> in which every folder can be listed:
  the folder can be listed, and every entry that is a directory is such a tree of depth
  at most \<open>d - 1\<close>.
\<close>

fun tree_within :: "nat \<Rightarrow> env \<Rightarrow> string \<Rightarrow> bool" where
  "tree_within 0 e p = False"
| "tree_within (Suc d) e p =
     (case listdir e p of
        Inl _ \<Rightarrow> False
      | Inr items \<Rightarrow>
          list_all (\<lambda>item. isdir e (join p item) \<longrightarrow> tree_within d e (join p item)) items)"

text \<open>The console accepts every text.\<close>

definition console_ok :: "env \<Rightarrow> bool" where
  "console_ok e = (\<forall>n l. print_error e n l = None)"




text \<open>
  The classification in the words of the specification: after lowercasing, the file name
  ends with one of the four suffixes (the name itself, not an extension after a dot).
\<close>

definition image_suffix_spec :: "string \<Rightarrow> bool" where
  "image_suffix_spec item =
     (\<exists>pre suf. suf \<in> {''png'', ''jpg'', ''jpeg'', ''gif''} \<and> lower item = pre @ suf)"

section \<open>Example environments\<close>

text \<open>
  The texts of the operating system's errors, for the plain paths of the examples (no
  apostrophe, backslash or unprintable character, which \<^verbatim>\<open>repr\<close> would write differently).
\<close>

definition plain_error_text :: "string \<Rightarrow> string \<Rightarrow> string" where
  "plain_error_text c p =
     (if c = ''FileNotFoundError'' then ''[Errno 2] No such file or directory: ''
      else if c = ''NotADirectoryError'' then ''[Errno 20] Not a directory: ''
      else if c = ''IsADirectoryError'' then ''[Errno 21] Is a directory: ''
      else ''[Errno 13] Permission denied: '') @ quoted p"

definition permission_denied :: "string \<Rightarrow> exn" where
  "permission_denied shown = Exn ''PermissionError'' (''[Errno 13] Permission denied: '' @ quoted shown)"

text \<open>
  Two file names that are not UTF-8 (a byte \<^verbatim>\<open>0xFF\<close>, a byte \<^verbatim>\<open>0xFE\<close>). Python holds such a
  byte as a lone surrogate, which \<^verbatim>\<open>repr\<close> shows escaped and no UTF-8 console can encode.
\<close>

definition odd_png :: string where
  "odd_png = [CHR 0xFF] @ ''.png''"

definition odd_gif :: string where
  "odd_gif = [CHR 0xFE] @ ''.gif''"

text \<open>
  A folder \<^verbatim>\<open>/r\<close> with a text file, an image, an image that cannot be read and an
  empty subfolder; a folder \<^verbatim>\<open>/locked\<close> whose subfolder cannot be listed; a folder
  \<^verbatim>\<open>/odd\<close> with two images that cannot be read and whose names are not UTF-8.
\<close>

definition demo_entries :: "string \<Rightarrow> entry option" where
  "demo_entries =
     map_of
       [(''/r'', Dir (Inr [''notes.txt'', ''cat.png'', ''broken.gif'', ''sub''])),
        (''/r/notes.txt'', File (Inr ''hello'')),
        (''/r/cat.png'', File (Inr ''abc'')),
        (''/r/broken.gif'', File (Inl (permission_denied ''/r/broken.gif''))),
        (''/r/sub'', Dir (Inr [])),
        (''/locked'', Dir (Inr [''private''])),
        (''/locked/private'', Dir (Inl (permission_denied ''/locked/private''))),
        (''/odd'', Dir (Inr [odd_png, odd_gif])),
        (''/odd/'' @ odd_png,
           File (Inl (permission_denied (''/odd/'' @ [CHR 0x5C] @ ''udcff.png'')))),
        (''/odd/'' @ odd_gif,
           File (Inl (permission_denied (''/odd/'' @ [CHR 0x5C] @ ''udcfe.gif''))))]"

text \<open>A console that takes every text.\<close>

definition lenient_console :: "nat \<Rightarrow> string \<Rightarrow> exn option" where
  "lenient_console n l = None"

text \<open>
  A console with the encoding UTF-8 and the error handler \<^verbatim>\<open>strict\<close>: a text with a lone
  surrogate (here: a byte from \<^verbatim>\<open>0xF8\<close> on, after ASCII text) is refused with
  \<^verbatim>\<open>UnicodeEncodeError\<close>.
\<close>

definition hex_digit :: "nat \<Rightarrow> char" where
  "hex_digit n = ''0123456789abcdef'' ! (n mod 16)"

fun first_surrogate :: "nat \<Rightarrow> string \<Rightarrow> (nat \<times> nat) option" where
  "first_surrogate i [] = None"
| "first_surrogate i (c # rest) =
     (if 0xF8 \<le> (of_char c :: nat) then Some (i, of_char c)
      else if (of_char c :: nat) < 0x80 then first_surrogate (Suc i) rest
      else None)"

definition strict_console :: "nat \<Rightarrow> string \<Rightarrow> exn option" where
  "strict_console n l =
     (case first_surrogate 0 l of
        None \<Rightarrow> None
      | Some (i, b) \<Rightarrow>
          Some (Exn ''UnicodeEncodeError''
            (quoted ''utf-8'' @ '' codec can'' @ [CHR 0x27] @ ''t encode character '' @
             quoted ([CHR 0x5C] @ ''udc'' @ [hex_digit (b div 16), hex_digit b]) @
             '' in position '' @ show_nat i @ '': surrogates not allowed'')))"

definition demo_env ::
  "(nat \<Rightarrow> string \<Rightarrow> exn option) \<Rightarrow> (nat \<Rightarrow> request \<Rightarrow> exn + response) \<Rightarrow> env" where
  "demo_env con srv =
     \<lparr>entries = demo_entries, abspath = (\<lambda>p. p), server = srv, print_error = con,
      write_error = (\<lambda>p. None), os_error_text = plain_error_text, recursion_limit = 1000,
      dumps = (\<lambda>indent tree. ''{}'')\<rparr>"

definition refusing :: "nat \<Rightarrow> request \<Rightarrow> exn + response" where
  "refusing n r = Inl (Exn ''ConnectionError'' ''Connection refused'')"

definition array_response :: response where
  "array_response = \<lparr>status_code = 200, resp_text = ''[]'', json_result = Inr (JArray [])\<rparr>"

definition content_response :: response where
  "content_response =
     \<lparr>status_code = 200,
      resp_text = ''{'' @ [CHR 0x22] @ ''content'' @ [CHR 0x22] @ '': '' @ [CHR 0x22] @ ''a cat'' @
                  [CHR 0x22] @ ''}'',
      json_result = Inr (JObject [(''content'', JString ''a cat'')])\<rparr>"

definition answering :: "response \<Rightarrow> nat \<Rightarrow> request \<Rightarrow> exn + response" where
  "answering resp n r = Inr resp"





definition io_start :: io where
  "io_start = \<lparr>sent = [], stdout = [], files = []\<rparr>"

section \<open>What the Describer returns\<close>

lemma b64_groups_Nil_iff: "b64_groups ns = [] \<longleftrightarrow> ns = []"
  by (cases ns rule: b64_groups.cases) simp_all

lemma b64encode_Nil_iff: "b64encode bs = [] \<longleftrightarrow> bs = []"
  by (simp add: b64encode_def b64_groups_Nil_iff)

lemma try_request_io: "try_request e r s = (x, s') \<Longrightarrow> s' = s\<lparr>sent := sent s @ [r]\<rparr>"
  by (auto simp: try_request_def post_def split: sum.splits if_splits)

lemma request_description_returns:
  "\<exists>v. request_description e r s = (Inr v, s\<lparr>sent := sent s @ [r]\<rparr>)"
proof (cases "try_request e r s")
  case (Pair x s')
  then have "s' = s\<lparr>sent := sent s @ [r]\<rparr>" by (rule try_request_io)
  with Pair show ?thesis by (cases x) (simp_all add: request_description_def)
qed


lemma request_description_response:
  assumes "server e (length (sent s)) r = Inr resp"
  shows "fst (request_description e r s) =
           Inr (if status_code resp = 200 then
                  (case json_result resp of
                     Inl ex \<Rightarrow> JString (''Error making the request: '' @ exn_str ex)
                   | Inr v \<Rightarrow>
                       (case get_content v of
                          Inl ex \<Rightarrow> JString (''Error making the request: '' @ exn_str ex)
                        | Inr c \<Rightarrow> c))
                else JString (''Error: '' @ show_int (status_code resp) @ '' - '' @ resp_text resp))"
  using assms
  by (simp add: request_description_def try_request_def post_def split: sum.splits)

lemma describe_text:
  "\<not> truthy ip \<Longrightarrow>
   describe_with_curl e mdl ip txt s = request_description e (mk_request mdl (text_message txt)) s"
  by (simp add: describe_with_curl_def)

lemma describe_image_unreadable:
  "truthy ip \<Longrightarrow> read_bytes e (the ip) = Inl ex \<Longrightarrow>
   print_error e (length (stdout s)) (encoding_notice (the ip) ex) = None \<Longrightarrow>
   describe_with_curl e mdl ip txt s =
     (Inr (JString ''Error encoding the image for description.''),
      s\<lparr>stdout := stdout s @ [encoding_notice (the ip) ex]\<rparr>)"
  by (simp add: describe_with_curl_def encode_image_to_base64_def truthy_def print_def)

lemma describe_image_unprintable:
  "truthy ip \<Longrightarrow> read_bytes e (the ip) = Inl ex \<Longrightarrow>
   print_error e (length (stdout s)) (encoding_notice (the ip) ex) = Some px \<Longrightarrow>
   describe_with_curl e mdl ip txt s = (Inl px, s)"
  by (simp add: describe_with_curl_def encode_image_to_base64_def truthy_def print_def)

lemma describe_image_empty:
  "truthy ip \<Longrightarrow> read_bytes e (the ip) = Inr [] \<Longrightarrow>
   describe_with_curl e mdl ip txt s =
     (Inr (JString ''Error encoding the image for description.''), s)"
  by (simp add: describe_with_curl_def encode_image_to_base64_def truthy_def b64encode_Nil_iff)

lemma describe_image_read:
  "truthy ip \<Longrightarrow> read_bytes e (the ip) = Inr bs \<Longrightarrow> bs \<noteq> [] \<Longrightarrow>
   describe_with_curl e mdl ip txt s =
     request_description e (mk_request mdl (image_message (b64encode bs))) s"
  by (simp add: describe_with_curl_def encode_image_to_base64_def truthy_def b64encode_Nil_iff)

lemma describe_cases:
  obtains (text_mode) "\<not> truthy ip"
      "describe_with_curl e mdl ip t s = request_description e (mk_request mdl (text_message t)) s"
  | (unreadable) ex where "truthy ip" "read_bytes e (the ip) = Inl ex"
      "print_error e (length (stdout s)) (encoding_notice (the ip) ex) = None"
      "describe_with_curl e mdl ip t s =
         (Inr (JString ''Error encoding the image for description.''),
          s\<lparr>stdout := stdout s @ [encoding_notice (the ip) ex]\<rparr>)"
  | (unprintable) ex px where "truthy ip" "read_bytes e (the ip) = Inl ex"
      "print_error e (length (stdout s)) (encoding_notice (the ip) ex) = Some px"
      "describe_with_curl e mdl ip t s = (Inl px, s)"
  | (empty) "truthy ip" "read_bytes e (the ip) = Inr []"
      "describe_with_curl e mdl ip t s =
         (Inr (JString ''Error encoding the image for description.''), s)"
  | (image_mode) bs where "truthy ip" "read_bytes e (the ip) = Inr bs" "bs \<noteq> []"
      "describe_with_curl e mdl ip t s =
         request_description e (mk_request mdl (image_message (b64encode bs))) s"
proof (cases "truthy ip")
  case False
  then show ?thesis using text_mode describe_text by blast
next
  case True
  show ?thesis
  proof (cases "read_bytes e (the ip)")
    case (Inl ex)
    show ?thesis
    proof (cases "print_error e (length (stdout s)) (encoding_notice (the ip) ex)")
      case None
      with Inl True show ?thesis using unreadable describe_image_unreadable by blast
    next
      case (Some px)
      with Inl True show ?thesis using unprintable describe_image_unprintable by blast
    qed
  next
    case (Inr bs)
    then show ?thesis
      using True empty image_mode describe_image_empty describe_image_read
      by (cases "bs = []") blast+
  qed
qed

lemma describe_io:
  assumes "describe_with_curl e mdl ip txt s = (r, s')"
  shows "files s' = files s \<and> (\<exists>rest. sent s' = sent s @ rest)"
proof (cases rule: describe_cases [where e = e and mdl = mdl and ip = ip and t = "txt" and s = s])
  case text_mode
  with assms show ?thesis
    using request_description_returns [of e "mk_request mdl (text_message txt)" s] by auto
next
  case (unreadable ex)
  with assms show ?thesis by auto
next
  case (unprintable ex px)
  with assms show ?thesis by auto
next
  case empty
  with assms show ?thesis by auto
next
  case (image_mode bs)
  with assms show ?thesis
    using request_description_returns [of e "mk_request mdl (image_message (b64encode bs))" s]
    by auto
qed

lemma describe_text_returns:
  "\<not> truthy ip \<Longrightarrow>
   \<exists>v. describe_with_curl e mdl ip txt s =
         (Inr v, s\<lparr>sent := sent s @ [mk_request mdl (text_message txt)]\<rparr>)"
  using request_description_returns [of e "mk_request mdl (text_message txt)" s]
  by (simp add: describe_text)

lemma describe_raises:
  assumes "describe_with_curl e mdl ip txt s = (Inl px, s')"
  shows "truthy ip \<and> s' = s \<and>
         (\<exists>ex. read_bytes e (the ip) = Inl ex \<and>
               print_error e (length (stdout s)) (encoding_notice (the ip) ex) = Some px)"
proof (cases rule: describe_cases [where e = e and mdl = mdl and ip = ip and t = "txt" and s = s])
  case text_mode
  with assms show ?thesis
    using request_description_returns [of e "mk_request mdl (text_message txt)" s] by auto
next
  case (unreadable ex)
  with assms show ?thesis by auto
next
  case (unprintable ex px')
  with assms show ?thesis by auto
next
  case empty
  with assms show ?thesis by auto
next
  case (image_mode bs)
  with assms show ?thesis
    using request_description_returns [of e "mk_request mdl (image_message (b64encode bs))" s]
    by auto
qed

lemma describe_returns:
  assumes "console_ok e"
  shows "\<exists>v s'. describe_with_curl e mdl ip txt s = (Inr v, s')"
proof (cases "describe_with_curl e mdl ip txt s")
  case (Pair r s')
  show ?thesis
  proof (cases r)
    case (Inl px)
    with Pair describe_raises [of e mdl ip "txt" s px s'] assms show ?thesis
      by (auto simp: console_ok_def)
  next
    case (Inr v)
    with Pair show ?thesis by simp
  qed
qed

lemma describe_sends:
  assumes "describe_with_curl e mdl ip txt s = (res, s')" and "sent s' = sent s @ [r]"
  shows "request_description e r s = (res, s')"
proof (cases rule: describe_cases [where e = e and mdl = mdl and ip = ip and t = "txt" and s = s])
  case text_mode
  obtain v where "request_description e (mk_request mdl (text_message txt)) s =
      (Inr v, s\<lparr>sent := sent s @ [mk_request mdl (text_message txt)]\<rparr>)"
    using request_description_returns by blast
  with text_mode assms show ?thesis by auto
next
  case (unreadable ex)
  with assms show ?thesis by auto
next
  case (unprintable ex px)
  with assms show ?thesis by auto
next
  case empty
  with assms show ?thesis by auto
next
  case (image_mode bs)
  obtain v where "request_description e (mk_request mdl (image_message (b64encode bs))) s =
      (Inr v, s\<lparr>sent := sent s @ [mk_request mdl (image_message (b64encode bs))]\<rparr>)"
    using request_description_returns by blast
  with image_mode assms show ?thesis by auto
qed

lemma file_entry_outcome:
  "file_entry e mdl p item s =
     (case describe_with_curl e mdl
             (if endswith (lower item) image_suffixes then Some (join p item) else None)
             (Some item) s of
        (Inl ex, s') \<Rightarrow> (Inl ex, s')
      | (Inr d, s') \<Rightarrow> (Inr (Node item (abspath e (join p item)) ''file'' d None), s'))"
  by (simp add: file_entry_def Let_def)

lemma file_entry_leaf:
  assumes "file_entry e mdl p item s = (Inr c, s')"
  shows "leaf_for e mdl p item c"
proof -
  from assms obtain d where
    "describe_with_curl e mdl
       (if endswith (lower item) image_suffixes then Some (join p item) else None)
       (Some item) s = (Inr d, s')"
    and "c = Node item (abspath e (join p item)) ''file'' d None"
    by (auto simp: file_entry_outcome split: prod.splits sum.splits)
  then show ?thesis unfolding leaf_for_def by (simp split: if_splits) blast+
qed


lemma file_entry_returns:
  assumes "console_ok e"
  shows "\<exists>c s'. file_entry e mdl p item s = (Inr c, s')"
proof -
  obtain v s' where "describe_with_curl e mdl
       (if endswith (lower item) image_suffixes then Some (join p item) else None)
       (Some item) s = (Inr v, s')"
    using describe_returns [OF assms] by blast
  then show ?thesis by (simp add: file_entry_outcome)
qed

section \<open>The loop over the entries\<close>

lemma scan_items_result:
  assumes "scan_items recurse e mdl p items acc s = (Inr cs, s')"
      and "\<And>q s1 c s2. recurse q s1 = (Inr c, s2) \<Longrightarrow> P q c"
      and "\<And>item s1 c s2. file_entry e mdl p item s1 = (Inr c, s2) \<Longrightarrow> L item c"
  shows "\<exists>new. cs = acc @ new \<and>
           list_all2 (\<lambda>item c. if isdir e (join p item) then P (join p item) c else L item c)
             items new"
  using assms(1)
proof (induction items arbitrary: acc s)
  case Nil
  then show ?case by simp
next
  case (Cons item rest)
  show ?case
  proof (cases "isdir e (join p item)")
    case True
    with Cons.prems obtain child s1 where
      r: "recurse (join p item) s = (Inr child, s1)" and
      k: "scan_items recurse e mdl p rest (acc @ [child]) s1 = (Inr cs, s')"
      by (auto simp: Let_def split: sum.splits prod.splits)
    from Cons.IH [OF k] obtain new where
      "cs = (acc @ [child]) @ new" and
      "list_all2 (\<lambda>item c. if isdir e (join p item) then P (join p item) c else L item c) rest new"
      by blast
    moreover have "P (join p item) child" using r assms(2) by blast
    ultimately show ?thesis using True by (intro exI [of _ "child # new"]) simp
  next
    case False
    with Cons.prems obtain child s1 where
      r: "file_entry e mdl p item s = (Inr child, s1)" and
      k: "scan_items recurse e mdl p rest (acc @ [child]) s1 = (Inr cs, s')"
      by (auto simp: Let_def split: sum.splits prod.splits)
    from Cons.IH [OF k] obtain new where
      "cs = (acc @ [child]) @ new" and
      "list_all2 (\<lambda>item c. if isdir e (join p item) then P (join p item) c else L item c) rest new"
      by blast
    moreover have "L item child" using r assms(3) by blast
    ultimately show ?thesis using False by (intro exI [of _ "child # new"]) simp
  qed
qed


lemma scan_items_total:
  assumes "console_ok e"
      and "\<And>item s1. item \<in> set items \<Longrightarrow> isdir e (join p item) \<Longrightarrow>
             \<exists>c s2. recurse (join p item) s1 = (Inr c, s2)"
  shows "\<exists>cs s'. scan_items recurse e mdl p items acc s = (Inr cs, s')"
  using assms(2)
proof (induction items arbitrary: acc s)
  case Nil
  then show ?case by simp
next
  case (Cons item rest)
  have IH: "\<exists>cs s'. scan_items recurse e mdl p rest acc' s1 = (Inr cs, s')" for acc' s1
    using Cons.IH Cons.prems by simp
  show ?case
  proof (cases "isdir e (join p item)")
    case True
    then obtain c s2 where "recurse (join p item) s = (Inr c, s2)"
      using Cons.prems [of item s] by auto
    with True IH [of "acc @ [c]" s2] show ?thesis by (simp add: Let_def)
  next
    case False
    obtain c s1 where "file_entry e mdl p item s = (Inr c, s1)"
      using file_entry_returns [OF assms(1)] by blast
    with False IH [of "acc @ [c]" s1] show ?thesis by (simp add: Let_def)
  qed
qed

section \<open>The recursion\<close>

lemma scan_folder_returnsE:
  assumes "scan_folder (Suc depth) e p mdl s = (Inr node, s')"
  obtains d s1 items cs where
    "describe_with_curl e mdl None (Some (basename p)) s = (Inr d, s1)"
    "listdir e p = Inr items"
    "scan_items (\<lambda>q. scan_folder depth e q mdl) e mdl p items [] s1 = (Inr cs, s')"
    "node = Node (basename p) (abspath e p) ''folder'' d (Some cs)"
  using assms by (auto split: prod.splits sum.splits)



lemma leaf_for_node_ok: "leaf_for e mdl p item c \<Longrightarrow> node_ok c"
  by (cases c) (simp add: leaf_for_def)

lemma scan_folder_node_ok:
  "scan_folder depth e p mdl s = (Inr node, s') \<Longrightarrow> node_ok node"
proof (induction depth arbitrary: p s node s')
  case 0
  then show ?case by simp
next
  case (Suc depth)
  from Suc.prems obtain d s1 items cs where
    k: "scan_items (\<lambda>q. scan_folder depth e q mdl) e mdl p items [] s1 = (Inr cs, s')" and
    n: "node = Node (basename p) (abspath e p) ''folder'' d (Some cs)"
    by (rule scan_folder_returnsE)
  have leaf: "node_ok c" if "file_entry e mdl p item s1 = (Inr c, s2)" for item s1 c s2
    using that file_entry_leaf leaf_for_node_ok by blast
  from scan_items_result [OF k, of "\<lambda>q. node_ok" "\<lambda>item. node_ok"] Suc.IH leaf
  have "list_all2 (\<lambda>item c. node_ok c) items cs"
    by (auto elim!: list_all2_mono split: if_splits)
  then have "list_all node_ok cs"
    by (auto simp: list_all2_conv_all_nth list_all_length)
  with n show ?case by simp
qed

lemma scan_folder_total:
  assumes "console_ok e"
  shows "tree_within d e p \<Longrightarrow> d \<le> depth \<Longrightarrow>
         \<exists>node s'. scan_folder depth e p mdl s = (Inr node, s')"
proof (induction d arbitrary: depth p s)
  case 0
  then show ?case by simp
next
  case (Suc d)
  from Suc.prems(2) obtain k where depth: "depth = Suc k" and dk: "d \<le> k"
    by (cases depth) simp_all
  from Suc.prems(1) obtain items where
    l: "listdir e p = Inr items" and
    sub: "\<And>item. item \<in> set items \<Longrightarrow> isdir e (join p item) \<Longrightarrow> tree_within d e (join p item)"
    by (auto simp: list_all_iff split: sum.splits)
  obtain v s1 where dsc: "describe_with_curl e mdl None (Some (basename p)) s = (Inr v, s1)"
    using describe_returns [OF assms] by blast
  have "\<exists>c s2. scan_folder k e (join p item) mdl s0 = (Inr c, s2)"
    if "item \<in> set items" "isdir e (join p item)" for item s0
    using Suc.IH [OF sub [OF that] dk] by blast
  from scan_items_total [OF assms, of items p "\<lambda>q. scan_folder k e q mdl", OF this]
  obtain cs s' where
    "scan_items (\<lambda>q. scan_folder k e q mdl) e mdl p items [] s1 = (Inr cs, s')"
    by blast
  with l dsc depth show ?case by simp
qed


section \<open>Suffixes, paths and degraded descriptions\<close>

lemma endswith1_iff: "endswith1 s suf \<longleftrightarrow> (\<exists>pre. s = pre @ suf)"
proof
  assume "endswith1 s suf"
  then have "s = take (length s - length suf) s @ suf"
    by (metis append_take_drop_id endswith1_def)
  then show "\<exists>pre. s = pre @ suf" ..
next
  assume "\<exists>pre. s = pre @ suf"
  then show "endswith1 s suf" by (auto simp: endswith1_def)
qed

lemma image_suffix_spec_code: "image_suffix_spec item = endswith (lower item) image_suffixes"
  by (auto simp: image_suffix_spec_def endswith_def image_suffixes_def endswith1_iff)

lemma join_nonempty: "b \<noteq> [] \<Longrightarrow> join a b \<noteq> []"
  by (simp add: join_def)

lemma image_suffix_nonempty: "image_suffix_spec item \<Longrightarrow> item \<noteq> []"
  by (auto simp: image_suffix_spec_def lower_def)







section \<open>The chain of folders\<close>








section \<open>The claims\<close>

text \<open>
  C6, as stated, fails. The second image of the folder \<^verbatim>\<open>/odd\<close> (its name is not UTF-8)
  cannot be read and the console is a strict UTF-8 one: the \<^verbatim>\<open>print\<close> in the handler of \<^verbatim>\<open>encode_image_to_base64\<close> raises
  \<^verbatim>\<open>UnicodeEncodeError\<close> on the file name, the exception leaves \<^verbatim>\<open>describe_with_curl\<close>, and
  the literal string is not returned.
\<close>

theorem encoding_failure_counterexample:
  "truthy (Some (''/odd/'' @ odd_gif)) \<and>
   read_bytes (demo_env strict_console refusing) (''/odd/'' @ odd_gif) =
     Inl (permission_denied (''/odd/'' @ [CHR 0x5C] @ ''udcfe.gif'')) \<and>
   map_sum exn_class id
     (fst (describe_with_curl (demo_env strict_console refusing) ''m''
             (Some (''/odd/'' @ odd_gif)) (Some odd_gif) io_start)) = Inl ''UnicodeEncodeError'' \<and>
   fst (describe_with_curl (demo_env strict_console refusing) ''m''
          (Some (''/odd/'' @ odd_gif)) (Some odd_gif) io_start) \<noteq>
     Inr (JString ''Error encoding the image for description.'')"
  by code_simp

text \<open>
  C6, amended. A call of \<^verbatim>\<open>describe_with_curl\<close> in image mode (\<open>image_path\<close> is a non-empty
  string) whose image cannot be read (opening or reading the file raises: a missing file,
  a directory, no permission) sends no request. When the console accepts the line that
  reports the failure, the call returns the literal string
  \<^verbatim>\<open>"Error encoding the image for description."\<close>; when \<^verbatim>\<open>print\<close> raises on that line, the
  exception of \<^verbatim>\<open>print\<close> leaves the call.
\<close>

theorem encoding_failure_no_request:
  assumes "truthy image_path" and "read_bytes e (the image_path) = Inl ex"
  shows "sent (snd (describe_with_curl e mdl image_path txt s)) = sent s \<and>
         (print_error e (length (stdout s)) (encoding_notice (the image_path) ex) = None \<longrightarrow>
            fst (describe_with_curl e mdl image_path txt s) =
              Inr (JString ''Error encoding the image for description.'')) \<and>
         (\<forall>px. print_error e (length (stdout s)) (encoding_notice (the image_path) ex) = Some px \<longrightarrow>
            fst (describe_with_curl e mdl image_path txt s) = Inl px)"
proof (cases "print_error e (length (stdout s)) (encoding_notice (the image_path) ex)")
  case None
  with describe_image_unreadable [OF assms None, of mdl "txt"] show ?thesis by simp
next
  case (Some px)
  with describe_image_unprintable [OF assms Some, of mdl "txt"] show ?thesis by simp
qed

text \<open>The image \<^verbatim>\<open>/r/broken.gif\<close> of the example cannot be read; the console takes every text.\<close>

theorem encoding_failure_no_request_witness:
  "truthy (Some ''/r/broken.gif'') \<and>
   read_bytes (demo_env lenient_console refusing) ''/r/broken.gif'' =
     Inl (permission_denied ''/r/broken.gif'') \<and>
   fst (describe_with_curl (demo_env lenient_console refusing) ''m'' (Some ''/r/broken.gif'')
          (Some ''broken.gif'') io_start) =
     Inr (JString ''Error encoding the image for description.'') \<and>
   sent (snd (describe_with_curl (demo_env lenient_console refusing) ''m'' (Some ''/r/broken.gif'')
          (Some ''broken.gif'') io_start)) = sent io_start"
proof -
  let ?e = "demo_env lenient_console refusing"
  have t: "truthy (Some ''/r/broken.gif'')" by (simp add: truthy_def)
  have r: "read_bytes ?e (the (Some ''/r/broken.gif'')) = Inl (permission_denied ''/r/broken.gif'')"
    by (simp add: read_bytes_def demo_env_def demo_entries_def)
  have p: "print_error ?e (length (stdout io_start))
             (encoding_notice (the (Some ''/r/broken.gif'')) (permission_denied ''/r/broken.gif'')) = None"
    by (simp add: demo_env_def lenient_console_def)
  from encoding_failure_no_request [OF t r, of "''m''" "Some ''broken.gif''" io_start] p t r
  show ?thesis by simp
qed




text \<open>
  C2. For an entry that is not a directory, the mode is a function of the lowercased
  name alone. When the lowercased name ends with \<^verbatim>\<open>png\<close>, \<^verbatim>\<open>jpg\<close>, \<^verbatim>\<open>jpeg\<close> or \<^verbatim>\<open>gif\<close>,
  the Describer is called with the entry's full path as image path, which is a non-empty
  string, so the image branch is taken: any request sent carries an image, the entry's
  outcome is the outcome of that call, and the call returns when the console accepts
  every text. Otherwise the Describer is called with no
  image path and the entry's name as text, it returns, and the one request sent is the
  text request for that name. The test of the source agrees with the wording of the
  specification, and \<^verbatim>\<open>photo.JPG\<close> and \<^verbatim>\<open>photo.jpg\<close> both select image mode.
\<close>

theorem mode_by_lowercased_suffix:
  "(image_suffix_spec item \<longleftrightarrow> endswith (lower item) image_suffixes) \<and>
   (image_suffix_spec item \<longrightarrow>
      truthy (Some (join p item)) \<and>
      (\<exists>r s'. describe_with_curl e mdl (Some (join p item)) (Some item) s = (r, s') \<and>
              file_entry e mdl p item s =
                (map_sum id (\<lambda>d. Node item (abspath e (join p item)) ''file'' d None) r, s') \<and>
              (console_ok e \<longrightarrow> (\<exists>d. r = Inr d)) \<and>
              (sent s' = sent s \<or>
               (\<exists>data. sent s' = sent s @ [mk_request mdl (image_message data)])))) \<and>
   (\<not> image_suffix_spec item \<longrightarrow>
      (\<exists>d s'. describe_with_curl e mdl None (Some item) s = (Inr d, s') \<and>
              file_entry e mdl p item s =
                (Inr (Node item (abspath e (join p item)) ''file'' d None), s') \<and>
              sent s' = sent s @ [mk_request mdl (text_message (Some item))])) \<and>
   image_suffix_spec ''photo.JPG'' \<and> image_suffix_spec ''photo.jpg''"
proof (intro conjI impI)
  show "image_suffix_spec item \<longleftrightarrow> endswith (lower item) image_suffixes"
    by (rule image_suffix_spec_code)
next
  assume a: "image_suffix_spec item"
  then show "truthy (Some (join p item))"
    by (simp add: truthy_def join_nonempty image_suffix_nonempty)
next
  assume a: "image_suffix_spec item"
  then have t: "truthy (Some (join p item))"
    by (simp add: truthy_def join_nonempty image_suffix_nonempty)
  obtain r s' where
    d: "describe_with_curl e mdl (Some (join p item)) (Some item) s = (r, s')"
    by (cases "describe_with_curl e mdl (Some (join p item)) (Some item) s")
  have f: "file_entry e mdl p item s =
             (map_sum id (\<lambda>d. Node item (abspath e (join p item)) ''file'' d None) r, s')"
    using a d by (cases r) (simp_all add: file_entry_outcome image_suffix_spec_code)
  have "sent s' = sent s \<or> (\<exists>data. sent s' = sent s @ [mk_request mdl (image_message data)])"
  proof (cases rule: describe_cases [where e = e and mdl = mdl and ip = "Some (join p item)"
          and t = "Some item" and s = s])
    case text_mode
    with t show ?thesis by simp
  next
    case (unreadable ex)
    with d show ?thesis by auto
  next
    case (unprintable ex px)
    with d show ?thesis by auto
  next
    case empty
    with d show ?thesis by auto
  next
    case (image_mode bs)
    with d request_description_returns [of e "mk_request mdl (image_message (b64encode bs))" s]
    show ?thesis by auto
  qed
  moreover have "console_ok e \<longrightarrow> (\<exists>d. r = Inr d)"
    using d describe_returns [of e mdl "Some (join p item)" "Some item" s] by auto
  ultimately
  show "\<exists>r s'. describe_with_curl e mdl (Some (join p item)) (Some item) s = (r, s') \<and>
              file_entry e mdl p item s =
                (map_sum id (\<lambda>d. Node item (abspath e (join p item)) ''file'' d None) r, s') \<and>
              (console_ok e \<longrightarrow> (\<exists>d. r = Inr d)) \<and>
              (sent s' = sent s \<or>
               (\<exists>data. sent s' = sent s @ [mk_request mdl (image_message data)]))"
    using d f by blast
next
  assume a: "\<not> image_suffix_spec item"
  obtain d where
    d': "describe_with_curl e mdl None (Some item) s =
          (Inr d, s\<lparr>sent := sent s @ [mk_request mdl (text_message (Some item))]\<rparr>)"
    using describe_text_returns [of None e mdl "Some item" s] by (auto simp: truthy_def)
  then have "file_entry e mdl p item s =
             (Inr (Node item (abspath e (join p item)) ''file'' d None),
              s\<lparr>sent := sent s @ [mk_request mdl (text_message (Some item))]\<rparr>)"
    using a by (simp add: file_entry_outcome image_suffix_spec_code)
  with d' show "\<exists>d s'. describe_with_curl e mdl None (Some item) s = (Inr d, s') \<and>
              file_entry e mdl p item s =
                (Inr (Node item (abspath e (join p item)) ''file'' d None), s') \<and>
              sent s' = sent s @ [mk_request mdl (text_message (Some item))]"
    by simp
next
  have "endswith (lower ''photo.JPG'') image_suffixes" by code_simp
  then show "image_suffix_spec ''photo.JPG''" by (simp only: image_suffix_spec_code)
next
  have "endswith (lower ''photo.jpg'') image_suffixes" by code_simp
  then show "image_suffix_spec ''photo.jpg''" by (simp only: image_suffix_spec_code)
qed

text \<open>
  In the example folder \<^verbatim>\<open>cat.png\<close> is described in image mode and \<^verbatim>\<open>notes.txt\<close> in
  text mode.
\<close>

theorem mode_by_lowercased_suffix_witness:
  "image_suffix_spec ''cat.png'' \<and> \<not> image_suffix_spec ''notes.txt'' \<and>
   truthy (Some (join ''/r'' ''cat.png'')) \<and>
   (\<exists>d s'. file_entry (demo_env lenient_console refusing) ''m'' ''/r'' ''notes.txt'' io_start =
             (Inr (Node ''notes.txt'' ''/r/notes.txt'' ''file'' d None), s') \<and>
           sent s' = [mk_request ''m'' (text_message (Some ''notes.txt''))])"
proof -
  let ?e = "demo_env lenient_console refusing"
  have "endswith (lower ''cat.png'') image_suffixes" by code_simp
  then have i: "image_suffix_spec ''cat.png''" by (simp only: image_suffix_spec_code)
  have "\<not> endswith (lower ''notes.txt'') image_suffixes" by code_simp
  then have n: "\<not> image_suffix_spec ''notes.txt''" by (simp add: image_suffix_spec_code)
  have j: "join ''/r'' ''notes.txt'' = ''/r/notes.txt''" by code_simp
  from mode_by_lowercased_suffix [of "''cat.png''" "''/r''" ?e "''m''" io_start] i
  have c: "truthy (Some (join ''/r'' ''cat.png''))" by blast
  from mode_by_lowercased_suffix [of "''notes.txt''" "''/r''" ?e "''m''" io_start] n
  obtain d s' where
    "file_entry ?e ''m'' ''/r'' ''notes.txt'' io_start =
       (Inr (Node ''notes.txt'' (abspath ?e (join ''/r'' ''notes.txt'')) ''file'' d None), s')"
    "sent s' = sent io_start @ [mk_request ''m'' (text_message (Some ''notes.txt''))]"
    by blast
  then have "file_entry ?e ''m'' ''/r'' ''notes.txt'' io_start =
             (Inr (Node ''notes.txt'' ''/r/notes.txt'' ''file'' d None), s') \<and>
           sent s' = [mk_request ''m'' (text_message (Some ''notes.txt''))]"
    using j by (simp add: demo_env_def io_start_def)
  with i n c show ?thesis by blast
qed

text \<open>
  C3, as stated, fails. The claim promises, for every response with status 200, the
  \<^verbatim>\<open>content\<close> field of the parsed body or \<^verbatim>\<open>"No description available"\<close> when the field is
  absent. A response with status 200 whose body is the JSON array \<^verbatim>\<open>[]\<close> has no such field,
  yet the result is not the fallback: \<^verbatim>\<open>.get\<close> raises \<^verbatim>\<open>AttributeError\<close> on a list, inside
  the \<^verbatim>\<open>try\<close>, and the handler returns an \<^verbatim>\<open>"Error making the request: ..."\<close> string.
\<close>

theorem content_field_counterexample:
  "status_code array_response = 200 \<and> json_result array_response = Inr (JArray []) \<and>
   server (demo_env lenient_console (answering array_response)) 0
     (mk_request ''m'' (text_message (Some ''notes.txt''))) = Inr array_response \<and>
   fst (describe_with_curl (demo_env lenient_console (answering array_response)) ''m'' None
          (Some ''notes.txt'') io_start) =
     Inr (JString (''Error making the request: '' @ quoted ''list'' @
                   '' object has no attribute '' @ quoted ''get'')) \<and>
   fst (describe_with_curl (demo_env lenient_console (answering array_response)) ''m'' None
          (Some ''notes.txt'') io_start) \<noteq> Inr (JString ''No description available'')"
  by (simp add: array_response_def demo_env_def answering_def describe_with_curl_def truthy_def
      request_description_def try_request_def post_def get_content_def type_name_def
      io_start_def quoted_def)

text \<open>
  C3, amended. For every response received by \<^verbatim>\<open>describe_with_curl\<close> (the call sent the
  request \<open>r\<close> and the service answered it with \<open>resp\<close>): when the status is not 200 the
  result is \<^verbatim>\<open>"Error: {status_code} - {response_body_text}"\<close>; when the status is 200 and
  the body parses to a JSON object, the result is the value of its top-level \<^verbatim>\<open>content\<close>
  field, or \<^verbatim>\<open>"No description available"\<close> when the object has no such field; when the
  status is 200 and parsing the body raises, or the parsed value is not an object, the
  exception is caught and the result is \<^verbatim>\<open>"Error making the request: "\<close> followed by the
  text of the exception.
\<close>

theorem response_to_description:
  assumes "describe_with_curl e mdl image_path txt s = (res, s')"
      and "sent s' = sent s @ [r]"
      and "server e (length (sent s)) r = Inr resp"
  shows "(status_code resp \<noteq> 200 \<longrightarrow>
            res = Inr (JString (''Error: '' @ show_int (status_code resp) @ '' - '' @
                                resp_text resp))) \<and>
         (status_code resp = 200 \<longrightarrow>
            (\<forall>kvs. json_result resp = Inr (JObject kvs) \<longrightarrow>
               res = Inr (case map_of kvs ''content'' of
                            Some c \<Rightarrow> c
                          | None \<Rightarrow> JString ''No description available'')) \<and>
            (\<forall>ex. json_result resp = Inl ex \<longrightarrow>
               res = Inr (JString (''Error making the request: '' @ exn_str ex))) \<and>
            (\<forall>v. json_result resp = Inr v \<and> (\<forall>kvs. v \<noteq> JObject kvs) \<longrightarrow>
               res = Inr (JString (''Error making the request: '' @ quoted (type_name v) @
                                   '' object has no attribute '' @ quoted ''get''))))"
proof -
  have "request_description e r s = (res, s')" using assms(1,2) by (rule describe_sends)
  with request_description_response [OF assms(3)]
  have res: "res =
           Inr (if status_code resp = 200 then
                  (case json_result resp of
                     Inl ex \<Rightarrow> JString (''Error making the request: '' @ exn_str ex)
                   | Inr v \<Rightarrow>
                       (case get_content v of
                          Inl ex \<Rightarrow> JString (''Error making the request: '' @ exn_str ex)
                        | Inr c \<Rightarrow> c))
                else JString (''Error: '' @ show_int (status_code resp) @ '' - '' @ resp_text resp))"
    by simp
  have obj: "get_content (JObject kvs) =
               Inr (case map_of kvs ''content'' of Some c \<Rightarrow> c
                    | None \<Rightarrow> JString ''No description available'')" for kvs
    by (simp add: get_content_def split: option.splits)
  have other: "get_content v =
                 Inl (Exn ''AttributeError''
                   (quoted (type_name v) @ '' object has no attribute '' @ quoted ''get''))"
    if "\<forall>kvs. v \<noteq> JObject kvs" for v
    using that by (cases v) (simp_all add: get_content_def)
  show ?thesis
  proof (intro conjI impI allI)
    assume "status_code resp \<noteq> 200"
    with res show "res = Inr (JString (''Error: '' @ show_int (status_code resp) @ '' - '' @
                                resp_text resp))" by simp
  next
    fix kvs assume "status_code resp = 200" "json_result resp = Inr (JObject kvs)"
    with res obj show "res = Inr (case map_of kvs ''content'' of
                            Some c \<Rightarrow> c
                          | None \<Rightarrow> JString ''No description available'')" by simp
  next
    fix ex assume "status_code resp = 200" "json_result resp = Inl ex"
    with res show "res = Inr (JString (''Error making the request: '' @ exn_str ex))" by simp
  next
    fix v assume "status_code resp = 200" "json_result resp = Inr v \<and> (\<forall>kvs. v \<noteq> JObject kvs)"
    with res other [of v]
    show "res = Inr (JString (''Error making the request: '' @ quoted (type_name v) @
                                   '' object has no attribute '' @ quoted ''get''))" by simp
  qed
qed

text \<open>A service that answers with an object holding a \<^verbatim>\<open>content\<close> field.\<close>

theorem response_to_description_witness:
  "server (demo_env lenient_console (answering content_response)) (length (sent io_start))
     (mk_request ''m'' (text_message (Some ''cat''))) = Inr content_response \<and>
   status_code content_response = 200 \<and>
   json_result content_response = Inr (JObject [(''content'', JString ''a cat'')]) \<and>
   fst (describe_with_curl (demo_env lenient_console (answering content_response)) ''m'' None
          (Some ''cat'') io_start) = Inr (JString ''a cat'')"
proof -
  let ?e = "demo_env lenient_console (answering content_response)"
  let ?r = "mk_request ''m'' (text_message (Some ''cat''))"
  obtain res s' where d: "describe_with_curl ?e ''m'' None (Some ''cat'') io_start = (res, s')"
    by (cases "describe_with_curl ?e ''m'' None (Some ''cat'') io_start")
  have "snd (describe_with_curl ?e ''m'' None (Some ''cat'') io_start) =
          io_start\<lparr>sent := sent io_start @ [?r]\<rparr>"
    using describe_text_returns [of None ?e "''m''" "Some ''cat''" io_start]
    by (auto simp: truthy_def)
  with d have s: "sent s' = sent io_start @ [?r]" by simp
  have x: "server ?e (length (sent io_start)) ?r = Inr content_response"
    by (simp add: demo_env_def answering_def)
  have c: "status_code content_response = 200"
    "json_result content_response = Inr (JObject [(''content'', JString ''a cat'')])"
    by (simp_all add: content_response_def)
  from response_to_description [OF d s x] c
  have "res = Inr (case map_of [(''content'', JString ''a cat'')] ''content'' of
                     Some c \<Rightarrow> c | None \<Rightarrow> JString ''No description available'')"
    by blast
  then have "res = Inr (JString ''a cat'')" by simp
  with d x c show ?thesis by simp
qed

text \<open>
  C4. Every Node of a tree returned by \<^verbatim>\<open>scan_folder\<close> has the key \<^verbatim>\<open>children\<close> exactly
  when its type is \<^verbatim>\<open>"folder"\<close>, and every Node made for an entry that is not a directory
  has the type \<^verbatim>\<open>"file"\<close> and no key \<^verbatim>\<open>children\<close>.
\<close>

theorem children_iff_folder:
  "(scan_folder depth e p mdl s = (Inr node, s') \<longrightarrow> node_ok node) \<and>
   (file_entry e mdl p item s = (Inr c, s1) \<longrightarrow> type c = ''file'' \<and> children c = None)"
proof (rule conjI; rule impI)
  assume "scan_folder depth e p mdl s = (Inr node, s')"
  then show "node_ok node" by (rule scan_folder_node_ok)
next
  assume "file_entry e mdl p item s = (Inr c, s1)"
  from file_entry_leaf [OF this]
  show "type c = ''file'' \<and> children c = None" by (simp add: leaf_for_def)
qed

text \<open>The tree of the example folder, and the leaf of its text file.\<close>

theorem children_iff_folder_witness:
  "(\<exists>node s'. scan_folder 1000 (demo_env lenient_console refusing) ''/r'' ''m'' io_start =
                (Inr node, s') \<and> node_ok node) \<and>
   (\<exists>c s1. file_entry (demo_env lenient_console refusing) ''m'' ''/r'' ''notes.txt'' io_start =
             (Inr c, s1) \<and> type c = ''file'' \<and> children c = None)"
proof -
  let ?e = "demo_env lenient_console refusing"
  have c: "console_ok ?e" by (simp add: console_ok_def demo_env_def lenient_console_def)
  have "tree_within 2 ?e ''/r''" by code_simp
  then obtain node s' where
    k: "scan_folder 1000 ?e ''/r'' ''m'' io_start = (Inr node, s')"
    using scan_folder_total [OF c, of 2 "''/r''" 1000 "''m''" io_start] by auto
  obtain c1 s1 where
    f: "file_entry ?e ''m'' ''/r'' ''notes.txt'' io_start = (Inr c1, s1)"
    using file_entry_returns [OF c] by blast
  from children_iff_folder [of 1000 ?e "''/r''" "''m''" io_start node s' "''notes.txt''" c1 s1] k f
  show ?thesis by blast
qed












text \<open>
  C10. When the path entered resolves to a regular file, the existence check of \<^verbatim>\<open>main\<close>
  passes although the path is not a directory, and the run ends with an exception
  without writing a file: \<^verbatim>\<open>os.listdir\<close> raises \<^verbatim>\<open>NotADirectoryError\<close> inside \<^verbatim>\<open>scan_folder\<close>
  and nothing catches it (that is the exception of the run whenever the console accepts
  the texts printed before and the interpreter allows the call of \<^verbatim>\<open>scan_folder\<close>).
\<close>

theorem regular_file_root_aborts:
  assumes "entries e (strip line) = Some (File c)"
  shows "path_exists e (strip line) \<and> \<not> isdir e (strip line) \<and>
         listdir e (strip line) = Inl (os_error e ''NotADirectoryError'' (strip line)) \<and>
         (\<exists>ex s'. main e (Inr line) s = (Inl ex, s') \<and> files s' = files s \<and>
            (console_ok e \<and> 0 < recursion_limit e \<longrightarrow>
               ex = os_error e ''NotADirectoryError'' (strip line)))"
proof -
  let ?ex = "os_error e ''NotADirectoryError'' (strip line)"
  have ex: "path_exists e (strip line)" and nd: "\<not> isdir e (strip line)"
    using assms by (simp_all add: path_exists_def isdir_def)
  have l: "listdir e (strip line) = Inl ?ex" using assms by (simp add: listdir_def)
  have scan: "\<exists>x s2. scan_folder k e (strip line) ''llama3.2-vision'' s1 = (Inl x, s2) \<and>
                files s2 = files s1 \<and> (0 < k \<longrightarrow> x = ?ex)" for k s1
  proof (cases k)
    case 0
    then show ?thesis by simp
  next
    case (Suc k')
    obtain d s2 where
      dsc: "describe_with_curl e ''llama3.2-vision'' None (Some (basename (strip line))) s1 =
              (Inr d, s2)"
      using describe_text_returns [of None e "''llama3.2-vision''" "Some (basename (strip line))" s1]
      by (auto simp: truthy_def)
    from describe_io [OF dsc] have "files s2 = files s1" by simp
    with dsc l Suc show ?thesis by simp
  qed
  show ?thesis
  proof (cases "print_error e (length (stdout s)) ''Enter the path to the folder you want to scan: ''")
    case (Some px)
    then have "main e (Inr line) s = (Inl px, s)" by (simp add: main_def print_def)
    with Some ex nd l show ?thesis by (auto simp: console_ok_def)
  next
    case None
    let ?s0 = "s\<lparr>stdout := stdout s @ [''Enter the path to the folder you want to scan: '']\<rparr>"
    show ?thesis
    proof (cases "print_error e (length (stdout ?s0))
                    ''Scanning folder and generating descriptions...''")
      case (Some px)
      with None ex have "main e (Inr line) s = (Inl px, ?s0)"
        by (simp add: main_def print_def Let_def)
      with Some ex nd l show ?thesis by (auto simp: console_ok_def)
    next
      case None2: None
      define s1 where
        "s1 = ?s0\<lparr>stdout := stdout ?s0 @ [''Scanning folder and generating descriptions...'']\<rparr>"
      from scan [of "recursion_limit e" s1] obtain x s2 where
        k: "scan_folder (recursion_limit e) e (strip line) ''llama3.2-vision'' s1 = (Inl x, s2)"
        and f: "files s2 = files s1" and x: "0 < recursion_limit e \<longrightarrow> x = ?ex"
        by auto
      from None None2 ex k have "main e (Inr line) s = (Inl x, s2)"
        by (simp add: main_def print_def Let_def s1_def)
      moreover have "files s2 = files s" using f by (simp add: s1_def)
      ultimately show ?thesis using x ex nd l by auto
    qed
  qed
qed

text \<open>The text file of the example folder, entered as the folder to scan.\<close>

theorem regular_file_root_aborts_witness:
  "entries (demo_env lenient_console refusing) (strip ''/r/notes.txt'') =
     Some (File (Inr ''hello'')) \<and>
   path_exists (demo_env lenient_console refusing) (strip ''/r/notes.txt'') \<and>
   \<not> isdir (demo_env lenient_console refusing) (strip ''/r/notes.txt'') \<and>
   fst (main (demo_env lenient_console refusing) (Inr ''/r/notes.txt'') io_start) =
     Inl (Exn ''NotADirectoryError'' (''[Errno 20] Not a directory: '' @ quoted ''/r/notes.txt'')) \<and>
   files (snd (main (demo_env lenient_console refusing) (Inr ''/r/notes.txt'') io_start)) = []"
proof -
  let ?e = "demo_env lenient_console refusing"
  have st: "strip ''/r/notes.txt'' = ''/r/notes.txt''" by code_simp
  have h: "entries ?e (strip ''/r/notes.txt'') = Some (File (Inr ''hello''))"
    by code_simp
  have c: "console_ok ?e \<and> 0 < recursion_limit ?e"
    by (simp add: console_ok_def demo_env_def lenient_console_def)
  have o: "os_error ?e ''NotADirectoryError'' ''/r/notes.txt'' =
    Exn ''NotADirectoryError'' (''[Errno 20] Not a directory: '' @ quoted ''/r/notes.txt'')"
    by (simp add: os_error_def demo_env_def plain_error_text_def)
  from regular_file_root_aborts [OF h, of io_start] c
  obtain s' where "path_exists ?e (strip ''/r/notes.txt'')"
    "\<not> isdir ?e (strip ''/r/notes.txt'')"
    "main ?e (Inr ''/r/notes.txt'') io_start =
       (Inl (os_error ?e ''NotADirectoryError'' (strip ''/r/notes.txt'')), s')"
    "files s' = files io_start"
    by blast
  with h st o show ?thesis by (simp add: io_start_def)
qed

end
